theory Spec2Isabelle
  imports Complex_Main "HOL-Library.Sublist" "HOL-Library.Log_Nat"
begin

section \<open>Text utilities of the campaign writer: backend/app/utils/text\_utils.py\<close>

subsection \<open>Strings and character classes\<close>

text \<open>
  A Python \<open>str\<close> is a sequence of Unicode code points, so a string is a list of
  natural numbers here; \<open>str\<close> turns an ASCII literal into its code points.
  Python's \<open>\w\<close>, \<open>\s\<close>, \<open>str.strip\<close> and \<open>str.lower\<close> consult the interpreter's
  Unicode database. The model fixes that database on the ASCII range and on the six
  typographic characters that \<open>clean_text\<close> names (en dash, em dash, the curly single and
  double quotes: punctuation, neither alphanumeric nor white space) and takes the rest of
  it as the parameter \<open>U\<close>, so that every theorem holds whatever the database says about
  the other code points.
\<close>

type_synonym pystr = "nat list"

definition str :: "string \<Rightarrow> pystr" where
  "str s = map of_char s"

record unicode_db =
  db_alnum :: "nat \<Rightarrow> bool"
  db_space :: "nat \<Rightarrow> bool"
  db_lower :: "pystr \<Rightarrow> pystr"

text \<open>The database that knows nothing beyond ASCII; concrete inputs are evaluated with it.\<close>

definition ascii_db :: unicode_db where
  "ascii_db = \<lparr>db_alnum = (\<lambda>c. False), db_space = (\<lambda>c. False), db_lower = (\<lambda>s. s)\<rparr>"

definition ascii_alnum :: "nat \<Rightarrow> bool" where
  "ascii_alnum c \<longleftrightarrow> (48 \<le> c \<and> c \<le> 57) \<or> (65 \<le> c \<and> c \<le> 90) \<or> (97 \<le> c \<and> c \<le> 122)"

definition ascii_space :: "nat \<Rightarrow> bool" where
  "ascii_space c \<longleftrightarrow> (9 \<le> c \<and> c \<le> 13) \<or> (28 \<le> c \<and> c \<le> 32)"

definition ascii_lower :: "nat \<Rightarrow> nat" where
  "ascii_lower c = (if 65 \<le> c \<and> c \<le> 90 then c + 32 else c)"

definition en_dash :: nat where "en_dash = 8211"
definition em_dash :: nat where "em_dash = 8212"

definition typographic :: "nat list" where
  "typographic = [en_dash, em_dash, 8216, 8217, 8220, 8221]"

text \<open>\<open>\w\<close>: alphanumeric or underscore.\<close>

definition is_word :: "unicode_db \<Rightarrow> nat \<Rightarrow> bool" where
  "is_word U c =
     (if c < 128 then ascii_alnum c \<or> c = 95
      else if c \<in> set typographic then False
      else db_alnum U c)"

text \<open>\<open>\s\<close> and the characters \<open>str.strip()\<close> removes.\<close>

definition is_space :: "unicode_db \<Rightarrow> nat \<Rightarrow> bool" where
  "is_space U c =
     (if c < 128 then ascii_space c
      else if c \<in> set typographic then False
      else db_space U c)"

text \<open>\<open>str.lower()\<close>: \<open>A\<close>..\<open>Z\<close> to \<open>a\<close>..\<open>z\<close> on an ASCII string.\<close>

definition py_lower :: "unicode_db \<Rightarrow> pystr \<Rightarrow> pystr" where
  "py_lower U s = (if list_all (\<lambda>c. c < 128) s then map ascii_lower s else db_lower U s)"

text \<open>\<open>str.strip()\<close>\<close>

definition py_strip :: "unicode_db \<Rightarrow> pystr \<Rightarrow> pystr" where
  "py_strip U s = rev (dropWhile (is_space U) (rev (dropWhile (is_space U) s)))"

text \<open>\<open>re.sub(r'\s+', ' ', s)\<close>: every maximal run of white space becomes one space.\<close>

function re_sub_spaces :: "unicode_db \<Rightarrow> pystr \<Rightarrow> pystr" where
  "re_sub_spaces U [] = []"
| "re_sub_spaces U (c # cs) =
     (if is_space U c then 32 # re_sub_spaces U (dropWhile (is_space U) cs)
      else c # re_sub_spaces U cs)"
  by pat_completeness auto
termination
  by (relation "measure (\<lambda>(U, s). length s)") (auto simp: length_dropWhile_le less_Suc_eq_le)

text \<open>
  The character class \<open>[^\w\s.,!?;:()\'"-]\<close> of the second substitution matches what is
  not kept; \<open>re.sub(..., '', s)\<close> deletes every match.
\<close>

definition basic_punctuation :: "nat list" where
  "basic_punctuation = str ''.,!?;:()'' @ [39, 34] @ str ''-''"

definition kept :: "unicode_db \<Rightarrow> nat \<Rightarrow> bool" where
  "kept U c \<longleftrightarrow> is_word U c \<or> is_space U c \<or> c \<in> set basic_punctuation"

text \<open>
  \<open>str.replace(old, new)\<close>: the occurrences of \<open>old\<close> are found from the left and do not
  overlap; an empty \<open>old\<close> matches before every character and at the end.
\<close>

function py_replace :: "pystr \<Rightarrow> pystr \<Rightarrow> pystr \<Rightarrow> pystr" where
  "py_replace old new [] = (if old = [] then new else [])"
| "py_replace old new (c # cs) =
     (if old = [] then new @ c # py_replace old new cs
      else if prefix old (c # cs) then new @ py_replace old new (drop (length old - 1) cs)
      else c # py_replace old new cs)"
  by pat_completeness auto
termination
  by (relation "measure (\<lambda>(old, new, s). length s)") auto

text \<open>
  The three lines under ``Normalize quotes and dashes''. As the file stands, the first
  replaces the ASCII double quote by itself, twice. In the second, the three apostrophes
  open a triple-quoted literal that runs to the next three apostrophes, so the line is one
  call: \<open>text.replace(', "\'").replace(', "'")\<close>. The third names the en dash and the em dash.
\<close>

definition quote_needle :: pystr where
  "quote_needle = str '', '' @ [34, 39, 34] @ str '').replace(''"

definition clean_text :: "unicode_db \<Rightarrow> pystr \<Rightarrow> pystr" where
  "clean_text U text =
     (if text = [] then []
      else
        let text = re_sub_spaces U (py_strip U text);
            text = filter (kept U) text;
            text = py_replace [34] [34] (py_replace [34] [34] text);
            text = py_replace quote_needle [39] text;
            text = py_replace [em_dash] [45] (py_replace [en_dash] [45] text)
        in text)"

subsection \<open>Tokens and sentences\<close>

text \<open>\<open>re.findall(r'\b\w+\b', s)\<close>: the maximal runs of word characters, from the left.\<close>

function re_findall_words :: "unicode_db \<Rightarrow> pystr \<Rightarrow> pystr list" where
  "re_findall_words U [] = []"
| "re_findall_words U (c # cs) =
     (if is_word U c
      then (c # takeWhile (is_word U) cs) # re_findall_words U (dropWhile (is_word U) cs)
      else re_findall_words U cs)"
  by pat_completeness auto
termination
  by (relation "measure (\<lambda>(U, s). length s)") (auto simp: length_dropWhile_le less_Suc_eq_le)

definition is_terminator :: "nat \<Rightarrow> bool" where
  "is_terminator c \<longleftrightarrow> c \<in> set (str ''.!?'')"

text \<open>
  \<open>re.split(r'[.!?]+', s)\<close>: the pieces between the maximal runs of terminators, the
  empty pieces at both ends included; \<open>cur\<close> holds the piece being read, reversed.
\<close>

function re_split_terminators :: "pystr \<Rightarrow> pystr \<Rightarrow> pystr list" where
  "re_split_terminators cur [] = [rev cur]"
| "re_split_terminators cur (c # cs) =
     (if is_terminator c then rev cur # re_split_terminators [] (dropWhile is_terminator cs)
      else re_split_terminators (c # cur) cs)"
  by pat_completeness auto
termination
  by (relation "measure (\<lambda>(cur, s). length s)") (auto simp: length_dropWhile_le less_Suc_eq_le)

text \<open>\<open>s.split('\n\n')\<close>, the separator being two line feeds.\<close>

fun split_blank_line :: "pystr \<Rightarrow> pystr \<Rightarrow> pystr list" where
  "split_blank_line cur [] = [rev cur]"
| "split_blank_line cur [c] = [rev (c # cur)]"
| "split_blank_line cur (c # d # cs) =
     (if c = 10 \<and> d = 10 then rev cur # split_blank_line [] cs
      else split_blank_line (c # cur) (d # cs))"

subsection \<open>Numbers and errors\<close>

text \<open>
  Python's integers are \<open>int\<close>. Its floats are IEEE 754 doubles: a double is the real
  number it denotes, and every float operation returns the exact result rounded to the
  nearest number with a significand of 53 bits, a tie going to the even significand
  (\<open>fl\<close>). The exponent range of the doubles is left out: the quantities below are
  quotients of counts of one text and small multiples of them, far from overflow and
  underflow.
\<close>

definition round_half_even :: "real \<Rightarrow> int" where
  "round_half_even x =
     (let f = \<lfloor>x\<rfloor>; d = x - of_int f
      in if d < 1 / 2 then f else if 1 / 2 < d then f + 1 else if even f then f else f + 1)"

text \<open>The exponent \<open>e\<close> of a positive number: \<open>2 ^ e \<le> x < 2 ^ (e + 1)\<close>.\<close>

definition binade :: "real \<Rightarrow> int" where
  "binade x =
     (if 1 \<le> x then int (floorlog 2 (nat \<lfloor>x\<rfloor>)) - 1
      else - int (floorlog 2 (nat (\<lceil>1 / x\<rceil> - 1))))"

definition fl :: "real \<Rightarrow> real" where
  "fl x =
     (if x = 0 then 0
      else let ulp = 2 powi (binade \<bar>x\<bar> - 52)
           in of_int (round_half_even (x / ulp)) * ulp)"

text \<open>The float operations \<open>+\<close>, \<open>-\<close> and \<open>*\<close>; a float literal \<open>c\<close> is \<open>fl c\<close>.\<close>

definition fadd :: "real \<Rightarrow> real \<Rightarrow> real" where
  "fadd a b = fl (a + b)"

definition fsub :: "real \<Rightarrow> real \<Rightarrow> real" where
  "fsub a b = fl (a - b)"

definition fmul :: "real \<Rightarrow> real \<Rightarrow> real" where
  "fmul a b = fl (a * b)"

text \<open>
  \<open>/\<close> raises \<open>ZeroDivisionError\<close> on a zero divisor and returns the rounded quotient
  otherwise, also for two integers.
\<close>

datatype error = ZeroDivisionError

definition py_div :: "real \<Rightarrow> real \<Rightarrow> error + real" where
  "py_div a b = (if b = 0 then Inl ZeroDivisionError else Inr (fl (a / b)))"

definition bind :: "error + 'a \<Rightarrow> ('a \<Rightarrow> error + 'b) \<Rightarrow> error + 'b" where
  "bind m f = (case m of Inl e \<Rightarrow> Inl e | Inr v \<Rightarrow> f v)"

text \<open>
  \<open>round(x, n)\<close>: the value of the double \<open>x\<close> is rounded to \<open>n\<close> decimals, a tie going to
  the even neighbour, and the decimal result is converted to the nearest double.
\<close>

definition py_round :: "real \<Rightarrow> nat \<Rightarrow> real" where
  "py_round x n = fl (of_int (round_half_even (x * 10 ^ n)) / 10 ^ n)"

subsection \<open>Syllables and readability\<close>

definition vowels :: pystr where
  "vowels = str ''aeiouy''"

text \<open>One round of the loop of \<open>count_syllables\<close> over \<open>(count, on_vowel)\<close>.\<close>

fun syllable_step :: "nat \<Rightarrow> int \<times> bool \<Rightarrow> int \<times> bool" where
  "syllable_step char (count, on_vowel) =
     (let is_vowel = char \<in> set vowels
      in (if is_vowel \<and> \<not> on_vowel then count + 1 else count, is_vowel))"

definition count_syllables :: "unicode_db \<Rightarrow> pystr \<Rightarrow> int" where
  "count_syllables U text0 =
     (let text = py_lower U text0;
          count = fst (fold syllable_step text (0, False));
          count = (if suffix (str ''e'') text then count - 1 else count)
      in max 1 count)"

definition count_complex_words :: "unicode_db \<Rightarrow> pystr \<Rightarrow> int" where
  "count_complex_words U text =
     (let ws = re_findall_words U (py_lower U text)
      in fold (\<lambda>word complex_count.
                 if 3 \<le> count_syllables U word then complex_count + 1 else complex_count)
           ws 0)"

record readability_scores =
  flesch_reading_ease :: real
  flesch_kincaid_grade :: real
  gunning_fog_index :: real
  avg_sentence_length :: real
  avg_syllables_per_word :: real
  complex_words_percentage :: real

text \<open>
  The locals \<open>num_sentences\<close> and \<open>num_words\<close> of \<open>calculate_readability_score\<close>, as functions
  of the cleaned text.
\<close>

definition num_sentences :: "unicode_db \<Rightarrow> pystr \<Rightarrow> int" where
  "num_sentences U text =
     (let ss = re_split_terminators [] text;
          ss = map (py_strip U) (filter (\<lambda>s. py_strip U s \<noteq> []) ss)
      in int (length ss))"

definition num_words :: "unicode_db \<Rightarrow> pystr \<Rightarrow> int" where
  "num_words U text = int (length (re_findall_words U (py_lower U text)))"

text \<open>The result \<open>{}\<close> is \<open>None\<close>, the dictionary of six scores is \<open>Some\<close> of the record.\<close>

definition calculate_readability_score :: "unicode_db \<Rightarrow> pystr \<Rightarrow> error + readability_scores option" where
  "calculate_readability_score U text0 =
     (if text0 = [] then Inr None
      else
        let text = clean_text U text0;
            n_sentences = num_sentences U text;
            n_words = num_words U text;
            n_syllables = count_syllables U text
        in if n_sentences = 0 \<or> n_words = 0 then Inr None
           else
             bind (py_div (of_int n_words) (of_int n_sentences)) (\<lambda>asl.
             bind (py_div (of_int n_syllables) (of_int n_words)) (\<lambda>aspw.
             let flesch_score = fsub (fsub (fl 206.835) (fmul (fl 1.015) asl)) (fmul (fl 84.6) aspw);
                 flesch_score = max 0 (min 100 flesch_score);
                 fk_grade = fsub (fadd (fmul (fl 0.39) asl) (fmul (fl 11.8) aspw)) (fl 15.59);
                 fk_grade = max 0 fk_grade;
                 complex_words = count_complex_words U text
             in
             bind (py_div (of_int n_words) (of_int n_sentences)) (\<lambda>q1.
             bind (py_div (of_int complex_words) (of_int n_words)) (\<lambda>q2.
             let fog_index = fmul (fl 0.4) (fadd q1 (fmul 100 q2))
             in
             bind (py_div (of_int complex_words) (of_int n_words)) (\<lambda>q3.
             Inr (Some \<lparr>flesch_reading_ease = py_round flesch_score 2,
                        flesch_kincaid_grade = py_round fk_grade 1,
                        gunning_fog_index = py_round fog_index 1,
                        avg_sentence_length = py_round asl 1,
                        avg_syllables_per_word = py_round aspw 2,
                        complex_words_percentage = py_round (fmul q3 100) 1\<rparr>)))))))"

subsection \<open>Keywords\<close>

text \<open>
  \<open>collections.Counter\<close> is a dictionary, and a dictionary keeps its keys in the order of
  their first insertion: an association list, a new key going to the end.
\<close>

fun counter_add :: "'a \<Rightarrow> ('a \<times> nat) list \<Rightarrow> ('a \<times> nat) list" where
  "counter_add w [] = [(w, 1)]"
| "counter_add w ((k, n) # kvs) =
     (if k = w then (k, n + 1) # kvs else (k, n) # counter_add w kvs)"

definition Counter :: "'a list \<Rightarrow> ('a \<times> nat) list" where
  "Counter ws = fold counter_add ws []"

text \<open>
  \<open>most_common(n)\<close> is \<open>heapq.nlargest(n, items, key=count)\<close>, which is
  \<open>sorted(items, key=count, reverse=True)[:n]\<close>: a stable sort, so that items of equal
  count stay in dictionary order, and nothing for \<open>n \<le> 0\<close>.
\<close>

definition most_common :: "('a \<times> nat) list \<Rightarrow> int \<Rightarrow> ('a \<times> nat) list" where
  "most_common items n = take (nat n) (sort_key (\<lambda>(w, c). - int c) items)"

definition stop_words :: "pystr list" where
  "stop_words = map str
     [''the'', ''a'', ''an'', ''and'', ''or'', ''but'', ''in'', ''on'', ''at'', ''to'', ''for'',
      ''of'', ''with'', ''by'', ''is'', ''are'', ''was'', ''were'', ''be'', ''been'', ''being'',
      ''have'', ''has'', ''had'', ''do'', ''does'', ''did'', ''will'', ''would'', ''could'',
      ''should'', ''may'', ''might'', ''must'', ''can'', ''this'', ''that'', ''these'', ''those'',
      ''i'', ''you'', ''he'', ''she'', ''it'', ''we'', ''they'', ''me'', ''him'', ''her'', ''us'', ''them'',
      ''my'', ''your'', ''his'', ''her'', ''its'', ''our'', ''their'', ''mine'', ''yours'', ''hers'',
      ''ours'', ''theirs'', ''am'', ''is'', ''are'', ''was'', ''were'', ''be'', ''been'', ''being'']"

text \<open>The tokens that \<open>extract_keywords\<close> counts: its local \<open>words\<close> after the filter.\<close>

definition keyword_tokens :: "unicode_db \<Rightarrow> pystr \<Rightarrow> pystr list" where
  "keyword_tokens U text0 =
     (let text = clean_text U (py_lower U text0);
          ws = re_findall_words U text
      in filter (\<lambda>word. word \<notin> set stop_words \<and> 2 < length word) ws)"

definition extract_keywords :: "unicode_db \<Rightarrow> pystr \<Rightarrow> int \<Rightarrow> pystr list" where
  "extract_keywords U text0 max_keywords =
     (if text0 = [] then []
      else
        let word_counts = Counter (keyword_tokens U text0)
        in map fst (most_common word_counts max_keywords))"

subsection \<open>Sentiment words\<close>

definition positive_words :: "pystr list" where
  "positive_words = map str
     [''good'', ''great'', ''excellent'', ''amazing'', ''wonderful'', ''fantastic'',
      ''awesome'', ''brilliant'', ''outstanding'', ''perfect'', ''best'', ''love'',
      ''like'', ''enjoy'', ''happy'', ''pleased'', ''satisfied'', ''impressed'']"

definition negative_words :: "pystr list" where
  "negative_words = map str
     [''bad'', ''terrible'', ''awful'', ''horrible'', ''worst'', ''disappointing'',
      ''poor'', ''unhappy'', ''angry'', ''frustrated'', ''annoyed'', ''upset'',
      ''hate'', ''dislike'', ''terrible'', ''awful'', ''horrible'']"

text \<open>
  \<open>list(set(xs))\<close>: the elements of \<open>xs\<close>, each once. Python leaves the order to the hashes
  of the elements; the model lists them in the order of \<open>remdups\<close>, and no theorem below
  depends on the order.
\<close>

definition list_of_set :: "'a list \<Rightarrow> 'a list" where
  "list_of_set xs = remdups xs"

record sentiment_words =
  positive :: "pystr list"
  negative :: "pystr list"

definition extract_sentiment_words :: "unicode_db \<Rightarrow> pystr \<Rightarrow> sentiment_words" where
  "extract_sentiment_words U text =
     (let ws = re_findall_words U (py_lower U text);
          positive_found = filter (\<lambda>word. word \<in> set positive_words) ws;
          negative_found = filter (\<lambda>word. word \<in> set negative_words) ws
      in \<lparr>positive = list_of_set positive_found, negative = list_of_set negative_found\<rparr>)"

subsection \<open>The statistics report\<close>

record text_statistics =
  characters :: int
  characters_no_spaces :: int
  words :: int
  sentences :: int
  paragraphs :: int
  unique_words :: int
  avg_word_length :: real
  readability :: "readability_scores option"
  sentiment :: sentiment_words
  estimated_reading_time :: real

text \<open>
  As for the readability scores, \<open>None\<close> is the empty dictionary \<open>{}\<close> and \<open>Some\<close> of the
  record the dictionary of ten entries.
\<close>

definition calculate_text_statistics :: "unicode_db \<Rightarrow> pystr \<Rightarrow> error + text_statistics option" where
  "calculate_text_statistics U text0 =
     (if text0 = [] then Inr None
      else
        let text = clean_text U text0;
            n_characters = int (length text);
            n_characters_no_spaces = int (length (py_replace [32] [] text));
            n_words = int (length (re_findall_words U text));
            n_sentences = int (length (re_split_terminators [] text));
            n_paragraphs = int (length (filter (\<lambda>p. py_strip U p \<noteq> []) (split_blank_line [] text)));
            word_counts = Counter (re_findall_words U (py_lower U text));
            n_unique_words = int (length word_counts)
        in
        bind (if 0 < n_words
              then py_div (of_int (sum_list (map (\<lambda>word. int (length word)) (re_findall_words U text))))
                     (of_int n_words)
              else Inr 0) (\<lambda>awl.
        bind (calculate_readability_score U text) (\<lambda>scores.
        let found = extract_sentiment_words U text
        in
        bind (py_div (of_int n_words) 200) (\<lambda>minutes.
        Inr (Some \<lparr>characters = n_characters,
                   characters_no_spaces = n_characters_no_spaces,
                   words = n_words,
                   sentences = n_sentences,
                   paragraphs = n_paragraphs,
                   unique_words = n_unique_words,
                   avg_word_length = py_round awl 2,
                   readability = scores,
                   sentiment = found,
                   estimated_reading_time = py_round minutes 1\<rparr>)))))"

subsection \<open>Notions used in the statements\<close>

text \<open>\<open>a\<close> occurs in \<open>ws\<close> before the first occurrence of \<open>b\<close>.\<close>

definition first_before :: "'a list \<Rightarrow> 'a \<Rightarrow> 'a \<Rightarrow> bool" where
  "first_before ws a b \<longleftrightarrow> a \<in> set (takeWhile (\<lambda>x. x \<noteq> b) ws)"

text \<open>\<open>a\<close> is more frequent in \<open>ws\<close> than \<open>b\<close>, or as frequent and first seen earlier.\<close>

definition ranks_above :: "'a list \<Rightarrow> 'a \<Rightarrow> 'a \<Rightarrow> bool" where
  "ranks_above ws a b \<longleftrightarrow>
     count_list ws b < count_list ws a \<or>
     (count_list ws a = count_list ws b \<and> first_before ws a b)"

text \<open>
  A string in which white space is only the space character, never doubled and never at
  the end.
\<close>

fun single_spaced :: "unicode_db \<Rightarrow> pystr \<Rightarrow> bool" where
  "single_spaced U [] = True"
| "single_spaced U (c # cs) =
     (if is_space U c then c = 32 \<and> cs \<noteq> [] \<and> \<not> is_space U (hd cs) \<and> single_spaced U cs
      else single_spaced U cs)"

section \<open>Properties\<close>

subsection \<open>Evaluation on concrete strings\<close>

lemmas char_defs = str_def is_space_def is_word_def ascii_space_def ascii_alnum_def
  ascii_lower_def kept_def basic_punctuation_def quote_needle_def en_dash_def em_dash_def
  typographic_def py_strip_def py_lower_def is_terminator_def vowels_def suffix_to_prefix

lemmas eval_defs = clean_text_def Let_def num_words_def num_sentences_def count_syllables_def
  count_complex_words_def bind_def py_div_def py_round_def round_half_even_def
  keyword_tokens_def Counter_def most_common_def stop_words_def positive_words_def
  negative_words_def list_of_set_def

lemmas report_defs = calculate_text_statistics_def calculate_readability_score_def
  extract_sentiment_words_def

subsection \<open>The report: no exception, and empty only for the empty string\<close>

lemma readability_total: "\<exists>r. calculate_readability_score U text = Inr r"
  by (simp add: calculate_readability_score_def Let_def bind_def py_div_def)

lemma statistics_nonempty:
  assumes "text \<noteq> []"
  shows "\<exists>r. calculate_text_statistics U text = Inr (Some r)"
proof -
  obtain s where s: "calculate_readability_score U (clean_text U text) = Inr s"
    using readability_total by blast
  show ?thesis
    using assms by (simp add: calculate_text_statistics_def Let_def bind_def py_div_def s)
qed

lemma readability_scores_exist:
  assumes "num_words U (clean_text U text) \<noteq> 0" and "num_sentences U (clean_text U text) \<noteq> 0"
  shows "\<exists>s. calculate_readability_score U text = Inr (Some s)"
proof (cases "text = []")
  case True
  with assms(1) show ?thesis
    by (simp add: clean_text_def num_words_def py_lower_def)
next
  case False
  with assms show ?thesis
    by (simp add: calculate_readability_score_def Let_def bind_def py_div_def)
qed

lemmas float_defs = fl_def binade_def compute_floorlog power_int_minus fadd_def fsub_def fmul_def

lemma aspw_shape:
  assumes "calculate_readability_score U text = Inr (Some r)"
  shows "avg_syllables_per_word r =
    py_round (fl (of_int (count_syllables U (clean_text U text)) / of_int (num_words U (clean_text U text)))) 2"
  using assms unfolding calculate_readability_score_def Let_def bind_def py_div_def
  by (auto split: if_splits)

text \<open>
  C1 (as amended). \<open>calculate_text_statistics("")\<close> returns the empty dictionary \<open>{}\<close>,
  which has no \<open>words\<close>, \<open>sentences\<close> or \<open>readability\<close> entry; the empty string is the
  only input with that result.
\<close>

theorem text_statistics_empty_iff:
  "calculate_text_statistics U text = Inr None \<longleftrightarrow> text = []"
proof (cases "text = []")
  case True
  then show ?thesis
    by (simp add: calculate_text_statistics_def)
next
  case False
  then show ?thesis
    using statistics_nonempty [OF False, of U] by auto
qed

theorem text_statistics_empty_iff_witness:
  "calculate_text_statistics ascii_db (str '''') = Inr None"
  using text_statistics_empty_iff [of ascii_db "str ''''"] by (simp add: str_def)

text \<open>
  C1 as stated fails: on the empty string there is no report with \<open>words = 0\<close>,
  \<open>sentences = 0\<close> and an empty \<open>readability\<close>.
\<close>

theorem text_statistics_empty_counterexample:
  "\<not> (case calculate_text_statistics ascii_db (str '''') of
        Inr (Some r) \<Rightarrow> words r = 0 \<and> sentences r = 0 \<and> readability r = None
      | _ \<Rightarrow> False)"
  by (simp add: calculate_text_statistics_def str_def)

subsection \<open>Syllables\<close>

text \<open>
  C2 at the input \<open>"the the"\<close>: \<open>calculate_readability_score\<close> passes the whole cleaned text
  to \<open>count_syllables\<close> and gets 1 (two vowel groups, minus one for the final \<open>e\<close> of the
  text), where the two words count one syllable each; the report's syllables per word
  are 1/2.
\<close>

theorem syllables_of_whole_text:
  "count_syllables ascii_db (clean_text ascii_db (str ''the the'')) = 1 \<and>
   sum_list (map (count_syllables ascii_db)
     (re_findall_words ascii_db (py_lower ascii_db (clean_text ascii_db (str ''the the''))))) = 2 \<and>
   map_sum id (map_option avg_syllables_per_word)
     (calculate_readability_score ascii_db (str ''the the'')) = Inr (Some (1 / 2))"
proof -
  have s: "count_syllables ascii_db (clean_text ascii_db (str ''the the'')) = 1"
    by (simp add: eval_defs char_defs)
  have w: "num_words ascii_db (clean_text ascii_db (str ''the the'')) = 2"
    by (simp add: eval_defs char_defs)
  have n: "num_sentences ascii_db (clean_text ascii_db (str ''the the'')) \<noteq> 0"
    by (simp add: eval_defs char_defs)
  have p: "sum_list (map (count_syllables ascii_db)
     (re_findall_words ascii_db (py_lower ascii_db (clean_text ascii_db (str ''the the''))))) = 2"
    by (simp add: eval_defs char_defs)
  obtain r where r: "calculate_readability_score ascii_db (str ''the the'') = Inr (Some r)"
    using readability_scores_exist [of ascii_db "str ''the the''"] w n by auto
  have h: "fl (1 / 2) = 1 / 2"
    by (simp add: float_defs round_half_even_def)
  have "avg_syllables_per_word r = 1 / 2"
    unfolding aspw_shape [OF r] s w by (simp add: py_round_def h round_half_even_def)
  with s p r show ?thesis
    by simp
qed

subsection \<open>Sentences\<close>

text \<open>
  C3 at the input \<open>"The cat sat."\<close>: the statistics report counts the pieces of
  \<open>re.split\<close> unfiltered, the empty piece after the final full stop among them, and has
  \<open>sentences = 2\<close>; the readability computation filters the pieces and counts 1.
\<close>

theorem statistics_sentences_trailing_terminator:
  "map_sum id (map_option (\<lambda>r. (words r, sentences r)))
     (calculate_text_statistics ascii_db (str ''The cat sat.'')) = Inr (Some (3, 2)) \<and>
   num_sentences ascii_db (clean_text ascii_db (str ''The cat sat.'')) = 1"
  by (simp add: report_defs eval_defs char_defs)

subsection \<open>Typographic characters\<close>

text \<open>
  C4 at the inputs \<open>a\<close>, en dash, \<open>b\<close> and curly-quoted \<open>hi\<close>, em dash, \<open>x\<close>: the second
  substitution of \<open>clean_text\<close> has deleted the dashes and the curly quotes before the
  replacements run, so the output has neither them nor a hyphen or a straight quote in
  their place.
\<close>

theorem clean_text_deletes_typographic:
  "clean_text ascii_db (str ''a'' @ [en_dash] @ str ''b'') = str ''ab'' \<and>
   clean_text ascii_db ([8220] @ str ''hi'' @ [8221, em_dash] @ str ''x'') = str ''hix''"
  by (simp add: eval_defs char_defs)

subsection \<open>Readability scores\<close>










text \<open>
  C7. \<open>calculate_readability_score\<close> raises nothing on any string: every division it reaches
  has a non-zero divisor. When the cleaned text has no word or no sentence the result is
  the empty report \<open>{}\<close>, returned as a value; otherwise it is the dictionary of scores.
\<close>

theorem readability_no_division_fault:
  "(\<exists>r. calculate_readability_score U text = Inr r) \<and>
   (num_words U (clean_text U text) = 0 \<or> num_sentences U (clean_text U text) = 0
      \<longrightarrow> calculate_readability_score U text = Inr None) \<and>
   (num_words U (clean_text U text) \<noteq> 0 \<and> num_sentences U (clean_text U text) \<noteq> 0
      \<longrightarrow> (\<exists>s. calculate_readability_score U text = Inr (Some s)))"
proof (cases "text = []")
  case True
  then show ?thesis
    by (simp add: calculate_readability_score_def clean_text_def num_words_def py_lower_def)
next
  case False
  then show ?thesis
    by (simp add: calculate_readability_score_def Let_def bind_def py_div_def)
qed

theorem readability_no_division_fault_witness:
  "num_sentences ascii_db (clean_text ascii_db (str ''.'')) = 0 \<and>
   calculate_readability_score ascii_db (str ''.'') = Inr None \<and>
   num_words ascii_db (clean_text ascii_db (str ''Hi.'')) \<noteq> 0 \<and>
   num_sentences ascii_db (clean_text ascii_db (str ''Hi.'')) \<noteq> 0 \<and>
   (\<exists>s. calculate_readability_score ascii_db (str ''Hi.'') = Inr (Some s))"
proof -
  have a: "num_sentences ascii_db (clean_text ascii_db (str ''.'')) = 0"
    by (simp add: eval_defs char_defs)
  have b: "num_words ascii_db (clean_text ascii_db (str ''Hi.'')) \<noteq> 0"
    by (simp add: eval_defs char_defs)
  have c: "num_sentences ascii_db (clean_text ascii_db (str ''Hi.'')) \<noteq> 0"
    by (simp add: eval_defs char_defs)
  show ?thesis
    using a b c
      readability_no_division_fault [of ascii_db "str ''.''"]
      readability_no_division_fault [of ascii_db "str ''Hi.''"]
    by blast
qed

subsection \<open>Sentiment words\<close>

lemma count_list_remdups: "count_list (remdups xs) w = (if w \<in> set xs then 1 else 0)"
  by (induction xs) auto

text \<open>
  C9. In the result of \<open>extract_sentiment_words\<close>, a word of the positive lexicon that is a
  token of the lowercased text occurs exactly once in the \<open>positive\<close> list, and a word of the
  negative lexicon exactly once in the \<open>negative\<close> list, however often the text has it;
  the lists hold nothing else. For \<open>"good good great"\<close> the positive list has the two
  elements \<open>good\<close> and \<open>great\<close>.
\<close>

theorem sentiment_words_once:
  "(\<forall>w \<in> set positive_words. w \<in> set (re_findall_words U (py_lower U text)) \<longrightarrow>
      count_list (positive (extract_sentiment_words U text)) w = 1) \<and>
   (\<forall>w \<in> set negative_words. w \<in> set (re_findall_words U (py_lower U text)) \<longrightarrow>
      count_list (negative (extract_sentiment_words U text)) w = 1) \<and>
   set (positive (extract_sentiment_words U text)) =
      set positive_words \<inter> set (re_findall_words U (py_lower U text)) \<and>
   set (negative (extract_sentiment_words U text)) =
      set negative_words \<inter> set (re_findall_words U (py_lower U text)) \<and>
   distinct (positive (extract_sentiment_words U text)) \<and>
   distinct (negative (extract_sentiment_words U text)) \<and>
   set (positive (extract_sentiment_words ascii_db (str ''good good great''))) =
      {str ''good'', str ''great''} \<and>
   length (positive (extract_sentiment_words ascii_db (str ''good good great''))) = 2"
proof -
  have "set (positive (extract_sentiment_words ascii_db (str ''good good great''))) =
      {str ''good'', str ''great''}"
    by (simp add: extract_sentiment_words_def eval_defs char_defs)
  moreover have "length (positive (extract_sentiment_words ascii_db (str ''good good great''))) = 2"
    by (simp add: extract_sentiment_words_def eval_defs char_defs)
  ultimately show ?thesis
    by (auto simp: extract_sentiment_words_def Let_def list_of_set_def count_list_remdups)
qed

theorem sentiment_words_once_witness:
  "str ''good'' \<in> set positive_words \<and>
   str ''good'' \<in> set (re_findall_words ascii_db (py_lower ascii_db (str ''good good great''))) \<and>
   count_list (positive (extract_sentiment_words ascii_db (str ''good good great''))) (str ''good'') = 1 \<and>
   str ''bad'' \<in> set negative_words \<and>
   str ''bad'' \<in> set (re_findall_words ascii_db (py_lower ascii_db (str ''bad bad''))) \<and>
   count_list (negative (extract_sentiment_words ascii_db (str ''bad bad''))) (str ''bad'') = 1"
proof -
  have p: "str ''good'' \<in> set positive_words"
    by (simp add: positive_words_def str_def)
  have q: "str ''good'' \<in> set (re_findall_words ascii_db (py_lower ascii_db (str ''good good great'')))"
    by (simp add: eval_defs char_defs)
  have n: "str ''bad'' \<in> set negative_words"
    by (simp add: negative_words_def str_def)
  have m: "str ''bad'' \<in> set (re_findall_words ascii_db (py_lower ascii_db (str ''bad bad'')))"
    by (simp add: eval_defs char_defs)
  show ?thesis
    using p q n m
      sentiment_words_once [of ascii_db "str ''good good great''"]
      sentiment_words_once [of ascii_db "str ''bad bad''"]
    by blast
qed

subsection \<open>Paragraphs\<close>

lemma re_sub_spaces_set:
  "c \<in> set (re_sub_spaces U s) \<Longrightarrow> c = 32 \<or> (c \<in> set s \<and> \<not> is_space U c)"
  by (induction U s rule: re_sub_spaces.induct) (auto split: if_splits dest: set_dropWhileD)

lemma py_replace_set: "set (py_replace old new s) \<subseteq> set s \<union> set new"
proof (induction old new s rule: py_replace.induct)
  case (1 old new)
  then show ?case by auto
next
  case (2 old new c cs)
  then show ?case
    using set_drop_subset [of "length old - 1" cs] by (auto split: if_splits)
qed

lemma is_space_simps:
  "is_space U 32" "is_space U 10" "\<not> is_space U 34" "\<not> is_space U 39" "\<not> is_space U 45"
  by (simp_all add: is_space_def ascii_space_def)

lemma clean_text_set:
  assumes "c \<in> set (clean_text U text)"
  shows "c = 32 \<or> \<not> is_space U c"
proof (cases "text = []")
  case True
  with assms show ?thesis by (simp add: clean_text_def)
next
  case False
  define t1 where "t1 = filter (kept U) (re_sub_spaces U (py_strip U text))"
  define t2 where "t2 = py_replace [34] [34] (py_replace [34] [34] t1)"
  define t3 where "t3 = py_replace quote_needle [39] t2"
  have ct: "clean_text U text = py_replace [em_dash] [45] (py_replace [en_dash] [45] t3)"
    using False by (simp add: clean_text_def Let_def t1_def t2_def t3_def)
  have ok1: "\<forall>c \<in> set t1. c = 32 \<or> \<not> is_space U c"
    unfolding t1_def using re_sub_spaces_set by fastforce
  have "set t2 \<subseteq> set t1 \<union> {34}"
    unfolding t2_def
    using py_replace_set [of "[34]" "[34]" t1]
      py_replace_set [of "[34]" "[34]" "py_replace [34] [34] t1"]
    by auto
  with ok1 have ok2: "\<forall>c \<in> set t2. c = 32 \<or> \<not> is_space U c"
    using is_space_simps by blast
  have "set t3 \<subseteq> set t2 \<union> {39}"
    unfolding t3_def using py_replace_set [of quote_needle "[39]"] by fastforce
  with ok2 have ok3: "\<forall>c \<in> set t3. c = 32 \<or> \<not> is_space U c"
    using is_space_simps by blast
  have "set (clean_text U text) \<subseteq> set t3 \<union> {45}"
    unfolding ct
    using py_replace_set [of "[en_dash]" "[45]" t3]
      py_replace_set [of "[em_dash]" "[45]" "py_replace [en_dash] [45] t3"]
    by auto
  with ok3 assms show ?thesis
    using is_space_simps by blast
qed

lemma split_blank_line_single: "10 \<notin> set s \<Longrightarrow> split_blank_line cur s = [rev cur @ s]"
  by (induction cur s rule: split_blank_line.induct) auto

lemma py_strip_empty: "py_strip U s = [] \<longleftrightarrow> (\<forall>c \<in> set s. is_space U c)"
proof
  assume "py_strip U s = []"
  then have all: "\<forall>c \<in> set (dropWhile (is_space U) s). is_space U c"
    by (simp add: py_strip_def)
  have "dropWhile (is_space U) s = []"
  proof (rule ccontr)
    assume ne: "dropWhile (is_space U) s \<noteq> []"
    then have "\<not> is_space U (hd (dropWhile (is_space U) s))"
      by (rule hd_dropWhile)
    with all ne show False
      by simp
  qed
  then show "\<forall>c \<in> set s. is_space U c"
    by simp
next
  assume "\<forall>c \<in> set s. is_space U c"
  then have d: "dropWhile (is_space U) s = []"
    by simp
  show "py_strip U s = []"
    unfolding py_strip_def d by simp
qed

text \<open>
  C10 (as amended). In every statistics report the \<open>paragraphs\<close> field is at most 1: the
  cleaned text has no line feed, so \<open>split('\n\n')\<close> returns it whole. The field is 1 when
  the cleaned text has a character other than the space, and 0 when it is empty or made
  of spaces only.
\<close>

theorem paragraphs_at_most_one:
  assumes "calculate_text_statistics U text = Inr (Some r)"
  shows "paragraphs r \<le> 1 \<and>
     (paragraphs r = 1 \<longleftrightarrow> (\<exists>c \<in> set (clean_text U text). c \<noteq> 32)) \<and>
     (paragraphs r = 0 \<longleftrightarrow> (\<forall>c \<in> set (clean_text U text). c = 32))"
proof -
  have "10 \<notin> set (clean_text U text)"
    using clean_text_set [of 10 U "text"] is_space_simps by auto
  then have one: "split_blank_line [] (clean_text U text) = [clean_text U text]"
    by (simp add: split_blank_line_single)
  have sp: "py_strip U (clean_text U text) = [] \<longleftrightarrow> (\<forall>c \<in> set (clean_text U text). c = 32)"
    unfolding py_strip_empty using clean_text_set [of _ U "text"] is_space_simps(1) [of U] by auto
  have "paragraphs r = (if py_strip U (clean_text U text) \<noteq> [] then 1 else 0)"
    using assms unfolding calculate_text_statistics_def Let_def bind_def one
    by (auto split: if_splits sum.splits)
  then show ?thesis
    unfolding sp by auto
qed

theorem paragraphs_at_most_one_witness:
  "(case calculate_text_statistics ascii_db (str ''Hi'') of
      Inr (Some r) \<Rightarrow> paragraphs r \<le> 1 \<and> paragraphs r = 1
    | _ \<Rightarrow> False)"
proof -
  have "str ''Hi'' \<noteq> []"
    by (simp add: str_def)
  then obtain r where r: "calculate_text_statistics ascii_db (str ''Hi'') = Inr (Some r)"
    using statistics_nonempty by blast
  have "clean_text ascii_db (str ''Hi'') = str ''Hi''"
    by (simp add: eval_defs char_defs)
  then have "\<exists>c \<in> set (clean_text ascii_db (str ''Hi'')). c \<noteq> 32"
    by (simp add: str_def)
  with paragraphs_at_most_one [OF r] show ?thesis
    by (simp add: r)
qed

text \<open>
  C10 as stated fails at \<open>"# #"\<close>: the cleaned text is one space, which is not empty, and
  the report has \<open>paragraphs = 0\<close>.
\<close>

theorem paragraphs_zero_counterexample:
  "clean_text ascii_db (str ''# #'') \<noteq> [] \<and>
   map_sum id (map_option paragraphs) (calculate_text_statistics ascii_db (str ''# #'')) = Inr (Some 0)"
  by (simp add: report_defs eval_defs char_defs)

subsection \<open>Keywords\<close>

lemma counter_add_map:
  "distinct ks \<Longrightarrow>
   counter_add w (map (\<lambda>k. (k, f k)) ks) =
     (if w \<in> set ks then map (\<lambda>k. (k, if k = w then f k + 1 else f k)) ks
      else map (\<lambda>k. (k, f k)) ks @ [(w, 1)])"
  by (induction ks) auto

lemma first_occurrences_snoc:
  "rev (remdups (rev (ws @ [w]))) =
     (if w \<in> set ws then rev (remdups (rev ws)) else rev (remdups (rev ws)) @ [w])"
  by simp

lemma Counter_snoc: "Counter (ws @ [w]) = counter_add w (Counter ws)"
  by (simp add: Counter_def)

text \<open>The counter lists the distinct words by first occurrence, each with its count.\<close>

lemma Counter_eq:
  "Counter ws = map (\<lambda>w. (w, count_list ws w)) (rev (remdups (rev ws)))"
proof (induction ws rule: rev_induct)
  case Nil
  show ?case by (simp add: Counter_def)
next
  case (snoc w ws)
  have d: "distinct (rev (remdups (rev ws)))"
    by simp
  show ?case
  proof (cases "w \<in> set ws")
    case True
    then show ?thesis
      unfolding Counter_snoc snoc.IH counter_add_map [OF d] first_occurrences_snoc
      by simp
  next
    case False
    then show ?thesis
      unfolding Counter_snoc snoc.IH counter_add_map [OF d] first_occurrences_snoc
      by (auto simp: count_list_0_iff)
  qed
qed

lemma insort_key_map:
  "insort_key f (h x) (map h ys) = map h (insort_key (\<lambda>y. f (h y)) x ys)"
  by (induction ys) auto

lemma sort_key_map:
  "sort_key f (map h xs) = map h (sort_key (\<lambda>y. f (h y)) xs)"
  by (induction xs) (auto simp: insort_key_map)

text \<open>
  Inserting, by key \<open>f\<close>, an element that comes before all of \<open>ys\<close> in the order \<open>B\<close>
  keeps \<open>ys\<close> ordered by key first and by \<open>B\<close> among equal keys.
\<close>

lemma insort_key_ranked:
  fixes f :: "'a \<Rightarrow> int"
  assumes "sorted_wrt (\<lambda>a b. f a < f b \<or> (f a = f b \<and> B a b)) ys"
    and "\<forall>y \<in> set ys. B x y"
  shows "sorted_wrt (\<lambda>a b. f a < f b \<or> (f a = f b \<and> B a b)) (insort_key f x ys)"
  using assms
proof (induction ys)
  case Nil
  then show ?case by simp
next
  case (Cons y ys)
  show ?case
  proof (cases "f x \<le> f y")
    case True
    have "\<forall>z \<in> set ys. f y \<le> f z"
      using Cons.prems(1) by auto
    with True Cons.prems show ?thesis
      by (auto simp: less_le)
  next
    case False
    with Cons show ?thesis
      by (auto simp: set_insort_key)
  qed
qed

lemma sort_key_ranked:
  fixes f :: "'a \<Rightarrow> int"
  assumes "sorted_wrt B xs"
  shows "sorted_wrt (\<lambda>a b. f a < f b \<or> (f a = f b \<and> B a b)) (sort_key f xs)"
  using assms
proof (induction xs)
  case Nil
  then show ?case by simp
next
  case (Cons x xs)
  then show ?case
    by (auto intro!: insort_key_ranked)
qed

lemma first_occurrences_ordered:
  "sorted_wrt (first_before ws) (rev (remdups (rev ws)))"
proof (induction ws rule: rev_induct)
  case Nil
  show ?case by simp
next
  case (snoc w ws)
  have old: "sorted_wrt (first_before (ws @ [w])) (rev (remdups (rev ws)))"
  proof (rule sorted_wrt_mono_rel [OF _ snoc.IH])
    fix a b
    assume "b \<in> set (rev (remdups (rev ws)))" and "first_before ws a b"
    then show "first_before (ws @ [w]) a b"
      by (simp add: first_before_def)
  qed
  show ?case
  proof (cases "w \<in> set ws")
    case True
    with old show ?thesis by simp
  next
    case False
    then have "takeWhile (\<lambda>x. x \<noteq> w) (ws @ [w]) = ws"
      by (subst takeWhile_append2) auto
    then have "\<forall>a \<in> set ws. first_before (ws @ [w]) a w"
      by (simp add: first_before_def)
    with old False show ?thesis
      by (simp add: sorted_wrt_append)
  qed
qed

lemma extract_keywords_eq:
  "extract_keywords U text n =
     take (nat n) (sort_key (\<lambda>w. - int (count_list (keyword_tokens U text) w))
       (rev (remdups (rev (keyword_tokens U text)))))"
proof (cases "text = []")
  case True
  then have "keyword_tokens U text = []"
    by (simp add: keyword_tokens_def py_lower_def clean_text_def)
  with True show ?thesis
    by (simp add: extract_keywords_def)
next
  case False
  then show ?thesis
    by (simp add: extract_keywords_def most_common_def Counter_eq sort_key_map take_map comp_def)
qed

lemma ranked_keywords:
  "sorted_wrt (ranks_above ws)
     (sort_key (\<lambda>w. - int (count_list ws w)) (rev (remdups (rev ws))))"
proof -
  have "sorted_wrt (\<lambda>a b. - int (count_list ws a) < - int (count_list ws b) \<or>
          (- int (count_list ws a) = - int (count_list ws b) \<and> first_before ws a b))
        (sort_key (\<lambda>w. - int (count_list ws w)) (rev (remdups (rev ws))))"
    by (rule sort_key_ranked) (rule first_occurrences_ordered)
  then show ?thesis
    by (rule sorted_wrt_mono_rel [rotated]) (auto simp: ranks_above_def)
qed

lemma words_chars: "w \<in> set (re_findall_words U s) \<Longrightarrow> set w \<subseteq> set s"
  by (induction U s rule: re_findall_words.induct)
    (auto split: if_splits dest: set_takeWhileD set_dropWhileD)

lemma clean_text_subset:
  assumes "c \<in> set (clean_text U text)"
  shows "c \<in> set text \<or> c \<in> {32, 34, 39, 45}"
proof (cases "text = []")
  case True
  with assms show ?thesis by (simp add: clean_text_def)
next
  case False
  define t1 where "t1 = filter (kept U) (re_sub_spaces U (py_strip U text))"
  define t2 where "t2 = py_replace [34] [34] (py_replace [34] [34] t1)"
  define t3 where "t3 = py_replace quote_needle [39] t2"
  have ct: "clean_text U text = py_replace [em_dash] [45] (py_replace [en_dash] [45] t3)"
    using False by (simp add: clean_text_def Let_def t1_def t2_def t3_def)
  have "set (py_strip U text) \<subseteq> set text"
    by (auto simp: py_strip_def dest!: set_dropWhileD)
  then have s1: "set t1 \<subseteq> set text \<union> {32}"
    unfolding t1_def using re_sub_spaces_set [of _ U "py_strip U text"] by auto
  have s2: "set t2 \<subseteq> set t1 \<union> {34}"
    unfolding t2_def
    using py_replace_set [of "[34]" "[34]" t1]
      py_replace_set [of "[34]" "[34]" "py_replace [34] [34] t1"]
    by auto
  have s3: "set t3 \<subseteq> set t2 \<union> {39}"
    unfolding t3_def using py_replace_set [of quote_needle "[39]"] by fastforce
  have s4: "set (clean_text U text) \<subseteq> set t3 \<union> {45}"
    unfolding ct
    using py_replace_set [of "[en_dash]" "[45]" t3]
      py_replace_set [of "[em_dash]" "[45]" "py_replace [en_dash] [45] t3"]
    by auto
  from assms s1 s2 s3 s4 show ?thesis
    by blast
qed

lemma keyword_lowercase:
  assumes "list_all (\<lambda>c. c < 128) text" and "k \<in> set (keyword_tokens U text)"
  shows "list_all (\<lambda>c. \<not> (65 \<le> c \<and> c \<le> 90)) k"
proof -
  have low: "py_lower U text = map ascii_lower text"
    using assms(1) by (simp add: py_lower_def)
  have "k \<in> set (re_findall_words U (clean_text U (map ascii_lower text)))"
    using assms(2) by (simp add: keyword_tokens_def Let_def low)
  then have sub: "set k \<subseteq> set (clean_text U (map ascii_lower text))"
    by (rule words_chars)
  have "\<not> (65 \<le> c \<and> c \<le> 90)" if "c \<in> set k" for c
  proof -
    from that sub have "c \<in> set (map ascii_lower text) \<or> c \<in> {32, 34, 39, 45}"
      using clean_text_subset by blast
    then show ?thesis
      by (auto simp: ascii_lower_def split: if_splits)
  qed
  then show ?thesis
    by (simp add: list_all_iff)
qed

lemma keywords_of_dog: "extract_keywords ascii_db (str ''Dog DOG dog cat'') 1 = [str ''dog'']"
  by (simp add: extract_keywords_def eval_defs char_defs)

text \<open>
  C8. \<open>extract_keywords\<close> counts the tokens of the lowercased, cleaned text that are no stop
  words and have more than two characters (\<open>keyword_tokens\<close>). Its result has
  \<open>max_keywords\<close> of them, or all if there are fewer, each once; it lists them by falling
  count, tokens of equal count by first occurrence; and every token left out ranks
  below every token returned. The text is lowercased: no keyword of an ASCII text has a
  capital letter, and \<open>"Dog DOG dog cat"\<close> has the one most frequent keyword \<open>dog\<close>. For
  \<open>"the the the dog ran dog"\<close> and \<open>max_keywords = 2\<close> the result is \<open>["dog", "ran"]\<close>.
\<close>

theorem extract_keywords_top_ranked:
  "length (extract_keywords U text n) = min (nat n) (card (set (keyword_tokens U text))) \<and>
   distinct (extract_keywords U text n) \<and>
   set (extract_keywords U text n) \<subseteq> set (keyword_tokens U text) \<and>
   sorted_wrt (ranks_above (keyword_tokens U text)) (extract_keywords U text n) \<and>
   (\<forall>w \<in> set (keyword_tokens U text) - set (extract_keywords U text n).
      \<forall>k \<in> set (extract_keywords U text n). ranks_above (keyword_tokens U text) k w) \<and>
   keyword_tokens U text =
     filter (\<lambda>word. word \<notin> set stop_words \<and> 2 < length word)
       (re_findall_words U (clean_text U (py_lower U text))) \<and>
   (list_all (\<lambda>c. c < 128) text \<longrightarrow>
      py_lower U text = map ascii_lower text \<and>
      (\<forall>k \<in> set (extract_keywords U text n). list_all (\<lambda>c. \<not> (65 \<le> c \<and> c \<le> 90)) k)) \<and>
   extract_keywords ascii_db (str ''Dog DOG dog cat'') 1 = [str ''dog''] \<and>
   extract_keywords ascii_db (str ''the the the dog ran dog'') 2 = map str [''dog'', ''ran'']"
proof -
  define ws where "ws = keyword_tokens U text"
  define L where "L = sort_key (\<lambda>w. - int (count_list ws w)) (rev (remdups (rev ws)))"
  have ks: "extract_keywords U text n = take (nat n) L"
    by (simp add: extract_keywords_eq L_def ws_def)
  have srt: "sorted_wrt (ranks_above ws) L"
    unfolding L_def by (rule ranked_keywords)
  have dist: "distinct L" and setL: "set L = set ws"
    by (simp_all add: L_def)
  have "length L = card (set ws)"
    using dist setL distinct_card by metis
  then have len: "length (take (nat n) L) = min (nat n) (card (set ws))"
    by simp
  have split: "sorted_wrt (ranks_above ws) (take (nat n) L @ drop (nat n) L)"
    using srt by simp
  have top: "\<forall>w \<in> set ws - set (take (nat n) L). \<forall>k \<in> set (take (nat n) L). ranks_above ws k w"
  proof (intro ballI)
    fix w k
    assume w: "w \<in> set ws - set (take (nat n) L)" and k: "k \<in> set (take (nat n) L)"
    have "set L = set (take (nat n) L) \<union> set (drop (nat n) L)"
      by (metis append_take_drop_id set_append)
    with w setL have "w \<in> set (drop (nat n) L)"
      by auto
    with k split show "ranks_above ws k w"
      unfolding sorted_wrt_append by blast
  qed
  have toks: "ws = filter (\<lambda>word. word \<notin> set stop_words \<and> 2 < length word)
       (re_findall_words U (clean_text U (py_lower U text)))"
    by (simp add: ws_def keyword_tokens_def)
  have ex: "extract_keywords ascii_db (str ''the the the dog ran dog'') 2 = map str [''dog'', ''ran'']"
    by (simp add: extract_keywords_def eval_defs char_defs)
  have sub: "set (take (nat n) L) \<subseteq> set ws"
    using setL by (auto dest: in_set_takeD)
  have dt: "distinct (take (nat n) L)"
    using dist by simp
  have st: "sorted_wrt (ranks_above ws) (take (nat n) L)"
    using srt by (rule sorted_wrt_take)
  have low: "list_all (\<lambda>c. c < 128) text \<longrightarrow>
      py_lower U text = map ascii_lower text \<and>
      (\<forall>k \<in> set (take (nat n) L). list_all (\<lambda>c. \<not> (65 \<le> c \<and> c \<le> 90)) k)"
  proof (intro impI conjI ballI)
    assume ascii: "list_all (\<lambda>c. c < 128) text"
    then show "py_lower U text = map ascii_lower text"
      by (simp add: py_lower_def)
    fix k
    assume "k \<in> set (take (nat n) L)"
    with sub have "k \<in> set (keyword_tokens U text)"
      by (auto simp: ws_def)
    with ascii show "list_all (\<lambda>c. \<not> (65 \<le> c \<and> c \<le> 90)) k"
      by (rule keyword_lowercase)
  qed
  show ?thesis
    unfolding ks ws_def [symmetric]
    using len dt sub st top toks low keywords_of_dog ex by blast
qed

theorem extract_keywords_top_ranked_witness:
  "str ''cat'' \<in> set (keyword_tokens ascii_db (str ''dog ran dog cat''))
       - set (extract_keywords ascii_db (str ''dog ran dog cat'') 2) \<and>
   str ''ran'' \<in> set (extract_keywords ascii_db (str ''dog ran dog cat'') 2) \<and>
   ranks_above (keyword_tokens ascii_db (str ''dog ran dog cat'')) (str ''ran'') (str ''cat'') \<and>
   list_all (\<lambda>c. c < 128) (str ''Dog DOG dog cat'') \<and>
   str ''dog'' \<in> set (extract_keywords ascii_db (str ''Dog DOG dog cat'') 1) \<and>
   list_all (\<lambda>c. \<not> (65 \<le> c \<and> c \<le> 90)) (str ''dog'')"
proof -
  have t: "keyword_tokens ascii_db (str ''dog ran dog cat'') = map str [''dog'', ''ran'', ''dog'', ''cat'']"
    by (simp add: eval_defs char_defs)
  have k: "extract_keywords ascii_db (str ''dog ran dog cat'') 2 = map str [''dog'', ''ran'']"
    by (simp add: extract_keywords_def eval_defs char_defs)
  have a: "str ''cat'' \<in> set (keyword_tokens ascii_db (str ''dog ran dog cat''))
       - set (extract_keywords ascii_db (str ''dog ran dog cat'') 2)"
    unfolding t k by (simp add: str_def)
  have b: "str ''ran'' \<in> set (extract_keywords ascii_db (str ''dog ran dog cat'') 2)"
    unfolding k by simp
  have c: "list_all (\<lambda>c. c < 128) (str ''Dog DOG dog cat'')"
    by (simp add: str_def)
  have d: "str ''dog'' \<in> set (extract_keywords ascii_db (str ''Dog DOG dog cat'') 1)"
    using extract_keywords_top_ranked [of ascii_db "str ''Dog DOG dog cat''" 1] by simp
  show ?thesis
    using a b c d
      extract_keywords_top_ranked [of ascii_db "str ''dog ran dog cat''" 2]
      extract_keywords_top_ranked [of ascii_db "str ''Dog DOG dog cat''" 1]
    by blast
qed

subsection \<open>Cleaning twice\<close>

lemma last_dropWhile: "dropWhile P xs \<noteq> [] \<Longrightarrow> last (dropWhile P xs) = last xs"
  by (metis last_appendR takeWhile_dropWhile_id)

lemma re_sub_spaces_Nil: "re_sub_spaces U s = [] \<longleftrightarrow> s = []"
  by (cases s) auto

lemma hd_re_sub_spaces: "s \<noteq> [] \<Longrightarrow> \<not> is_space U (hd s) \<Longrightarrow> hd (re_sub_spaces U s) = hd s"
  by (cases s) auto

lemma single_spaced_re_sub_spaces:
  "s = [] \<or> \<not> is_space U (last s) \<Longrightarrow> single_spaced U (re_sub_spaces U s)"
proof (induction U s rule: re_sub_spaces.induct)
  case (1 U)
  show ?case by simp
next
  case (2 U c cs)
  show ?case
  proof (cases "is_space U c")
    case True
    let ?d = "dropWhile (is_space U) cs"
    from 2(3) True have cs: "cs \<noteq> []" and lst: "\<not> is_space U (last cs)"
      by (auto split: if_splits)
    then have "\<not> (\<forall>x \<in> set cs. is_space U x)"
      using last_in_set by blast
    then have d: "?d \<noteq> []"
      by simp
    then have hd: "\<not> is_space U (hd ?d)"
      by (rule hd_dropWhile)
    have "last ?d = last cs"
      using d by (rule last_dropWhile)
    with lst have "single_spaced U (re_sub_spaces U ?d)"
      using 2(1) [OF True] by simp
    with True d hd show ?thesis
      by (simp add: re_sub_spaces_Nil hd_re_sub_spaces)
  next
    case False
    with 2(2) [OF False] 2(3) show ?thesis
      by (auto split: if_splits)
  qed
qed

lemma re_sub_spaces_single_spaced: "single_spaced U s \<Longrightarrow> re_sub_spaces U s = s"
proof (induction s)
  case Nil
  show ?case by simp
next
  case (Cons c cs)
  show ?case
  proof (cases "is_space U c")
    case True
    with Cons.prems have c: "c = 32" and cs: "cs \<noteq> []" "\<not> is_space U (hd cs)" "single_spaced U cs"
      by simp_all
    from cs have "dropWhile (is_space U) cs = cs"
      by (simp add: dropWhile_eq_self_iff)
    with True c cs Cons.IH show ?thesis
      by simp
  next
    case False
    with Cons show ?thesis by simp
  qed
qed

lemma single_spaced_last: "single_spaced U s \<Longrightarrow> s \<noteq> [] \<Longrightarrow> \<not> is_space U (last s)"
  by (induction s) (auto split: if_splits)

lemma py_strip_ends:
  "py_strip U x = [] \<or> (\<not> is_space U (hd (py_strip U x)) \<and> \<not> is_space U (last (py_strip U x)))"
proof (cases "py_strip U x = []")
  case True
  then show ?thesis by simp
next
  case False
  let ?d = "dropWhile (is_space U) x"
  let ?e = "dropWhile (is_space U) (rev ?d)"
  from False have e: "?e \<noteq> []"
    by (simp add: py_strip_def)
  then have d: "?d \<noteq> []"
    by (auto dest!: set_dropWhileD)
  have "last (py_strip U x) = hd ?e"
    using e by (simp add: py_strip_def last_rev)
  moreover have "\<not> is_space U (hd ?e)"
    using e by (rule hd_dropWhile)
  moreover have "hd (py_strip U x) = last ?e"
    using e by (simp add: py_strip_def hd_rev)
  moreover have "last ?e = last (rev ?d)"
    using e by (rule last_dropWhile)
  moreover have "last (rev ?d) = hd ?d"
    using d by (simp add: last_rev)
  moreover have "\<not> is_space U (hd ?d)"
    using d by (rule hd_dropWhile)
  ultimately show ?thesis
    by simp
qed

lemma py_strip_id:
  assumes "s = [] \<or> (\<not> is_space U (hd s) \<and> \<not> is_space U (last s))"
  shows "py_strip U s = s"
proof (cases "s = []")
  case True
  then show ?thesis by (simp add: py_strip_def)
next
  case False
  with assms have "dropWhile (is_space U) s = s"
    by (simp add: dropWhile_eq_self_iff)
  moreover from False assms have "dropWhile (is_space U) (rev s) = rev s"
    by (simp add: dropWhile_eq_self_iff hd_rev)
  ultimately show ?thesis
    by (simp add: py_strip_def)
qed

text \<open>Stripping and collapsing white space a second time changes nothing.\<close>

lemma whitespace_normal_form:
  "re_sub_spaces U (py_strip U (re_sub_spaces U (py_strip U x))) = re_sub_spaces U (py_strip U x)"
proof -
  let ?t = "py_strip U x"
  let ?w = "re_sub_spaces U ?t"
  have ends: "?t = [] \<or> (\<not> is_space U (hd ?t) \<and> \<not> is_space U (last ?t))"
    by (rule py_strip_ends)
  then have ss: "single_spaced U ?w"
    by (intro single_spaced_re_sub_spaces) auto
  have "?w = [] \<or> (\<not> is_space U (hd ?w) \<and> \<not> is_space U (last ?w))"
  proof (cases "?t = []")
    case True
    then show ?thesis by simp
  next
    case False
    with ends have "hd ?w = hd ?t"
      by (simp add: hd_re_sub_spaces)
    moreover from False have "?w \<noteq> []"
      by (simp add: re_sub_spaces_Nil)
    ultimately show ?thesis
      using ends False single_spaced_last [OF ss] by simp
  qed
  then have "py_strip U ?w = ?w"
    by (rule py_strip_id)
  with ss show ?thesis
    by (simp add: re_sub_spaces_single_spaced)
qed

lemma py_replace_absent: "\<not> sublist old s \<Longrightarrow> py_replace old new s = s"
proof (induction old new s rule: py_replace.induct)
  case (1 old new)
  then show ?case by auto
next
  case (2 old new c cs)
  from "2.prems" have "old \<noteq> []" and "\<not> prefix old (c # cs)" and "\<not> sublist old cs"
    by (auto simp: sublist_Cons_right)
  with "2.IH" show ?case
    by simp
qed

lemma py_replace_same: "py_replace [c] [c] s = s"
  by (induction s) auto

lemma py_replace_char_absent: "c \<notin> set s \<Longrightarrow> py_replace [c] new s = s"
  by (induction s) auto

lemma kept_simps: "kept U 32" "\<not> kept U en_dash" "\<not> kept U em_dash"
  by (simp_all add: kept_def is_space_def is_word_def ascii_space_def ascii_alnum_def
      en_dash_def em_dash_def typographic_def basic_punctuation_def str_def)

lemma clean_text_of_kept:
  assumes "\<forall>c \<in> set w. kept U c" and "\<not> sublist quote_needle w"
  shows "py_replace [em_dash] [45] (py_replace [en_dash] [45]
           (py_replace quote_needle [39]
             (py_replace [34] [34] (py_replace [34] [34] (filter (kept U) w))))) = w"
proof -
  have f: "filter (kept U) w = w"
    using assms(1) by simp
  have "en_dash \<notin> set w" and "em_dash \<notin> set w"
    using assms(1) kept_simps by blast+
  then show ?thesis
    by (simp add: f py_replace_same py_replace_absent [OF assms(2)] py_replace_char_absent)
qed

lemma kept_punctuation: "kept U 34" "kept U 39" "kept U 45"
  by (simp_all add: kept_def basic_punctuation_def str_def)

lemma clean_text_kept:
  assumes "c \<in> set (clean_text U text)"
  shows "kept U c"
proof (cases "text = []")
  case True
  with assms show ?thesis by (simp add: clean_text_def)
next
  case False
  define t1 where "t1 = filter (kept U) (re_sub_spaces U (py_strip U text))"
  define t2 where "t2 = py_replace [34] [34] (py_replace [34] [34] t1)"
  define t3 where "t3 = py_replace quote_needle [39] t2"
  have ct: "clean_text U text = py_replace [em_dash] [45] (py_replace [en_dash] [45] t3)"
    using False by (simp add: clean_text_def Let_def t1_def t2_def t3_def)
  have ok1: "\<forall>c \<in> set t1. kept U c"
    unfolding t1_def by simp
  have "set t2 \<subseteq> set t1 \<union> {34}"
    unfolding t2_def
    using py_replace_set [of "[34]" "[34]" t1]
      py_replace_set [of "[34]" "[34]" "py_replace [34] [34] t1"]
    by auto
  with ok1 have ok2: "\<forall>c \<in> set t2. kept U c"
    using kept_punctuation by blast
  have "set t3 \<subseteq> set t2 \<union> {39}"
    unfolding t3_def using py_replace_set [of quote_needle "[39]"] by fastforce
  with ok2 have ok3: "\<forall>c \<in> set t3. kept U c"
    using kept_punctuation by blast
  have "set (clean_text U text) \<subseteq> set t3 \<union> {45}"
    unfolding ct
    using py_replace_set [of "[en_dash]" "[45]" t3]
      py_replace_set [of "[em_dash]" "[45]" "py_replace [en_dash] [45] t3"]
    by auto
  with ok3 assms show ?thesis
    using kept_punctuation by blast
qed

text \<open>
  C5 (as amended). \<open>clean_text(clean_text(x)) == clean_text(x)\<close> for every string \<open>x\<close> whose
  cleaned text \<open>clean_text(x)\<close> has no space at its start or its end and no two spaces in
  a row, and has no occurrence of the string that the second ``normalize'' line replaces.
  A string with deleted characters qualifies when the deletions leave no such spaces,
  as in \<open>"Save 50% today"\<close>.
\<close>

theorem clean_text_idempotent_on_normal:
  assumes "\<not> prefix [32] (clean_text U x)"
    and "single_spaced U (clean_text U x)"
    and "\<not> sublist quote_needle (clean_text U x)"
  shows "clean_text U (clean_text U x) = clean_text U x"
proof (cases "clean_text U x = []")
  case True
  then show ?thesis by (simp add: clean_text_def)
next
  case False
  let ?y = "clean_text U x"
  have ky: "\<forall>c \<in> set ?y. kept U c"
    using clean_text_kept by blast
  have "hd ?y \<in> set ?y"
    using False by simp
  then have "hd ?y = 32 \<or> \<not> is_space U (hd ?y)"
    by (rule clean_text_set)
  moreover have "hd ?y \<noteq> 32"
    using assms(1) False by (cases ?y) auto
  ultimately have "\<not> is_space U (hd ?y)"
    by simp
  moreover have "\<not> is_space U (last ?y)"
    using assms(2) False by (rule single_spaced_last)
  ultimately have "py_strip U ?y = ?y"
    by (intro py_strip_id) simp
  moreover have "re_sub_spaces U ?y = ?y"
    using assms(2) by (rule re_sub_spaces_single_spaced)
  ultimately have "clean_text U ?y =
      py_replace [em_dash] [45] (py_replace [en_dash] [45]
        (py_replace quote_needle [39]
          (py_replace [34] [34] (py_replace [34] [34] (filter (kept U) ?y)))))"
    using False by (simp add: clean_text_def [of U ?y] Let_def)
  then show ?thesis
    using clean_text_of_kept [OF ky assms(3)] by simp
qed

theorem clean_text_idempotent_on_normal_witness:
  "clean_text ascii_db (str ''Save 50% today'') = str ''Save 50 today'' \<and>
   \<not> prefix [32] (clean_text ascii_db (str ''Save 50% today'')) \<and>
   single_spaced ascii_db (clean_text ascii_db (str ''Save 50% today'')) \<and>
   \<not> sublist quote_needle (clean_text ascii_db (str ''Save 50% today'')) \<and>
   clean_text ascii_db (clean_text ascii_db (str ''Save 50% today'')) =
     clean_text ascii_db (str ''Save 50% today'')"
proof -
  have v: "clean_text ascii_db (str ''Save 50% today'') = str ''Save 50 today''"
    by (simp add: eval_defs char_defs)
  have h1: "\<not> prefix [32] (clean_text ascii_db (str ''Save 50% today''))"
    unfolding v by (simp add: str_def)
  have h2: "single_spaced ascii_db (clean_text ascii_db (str ''Save 50% today''))"
    unfolding v by (simp add: char_defs)
  have h3: "\<not> sublist quote_needle (clean_text ascii_db (str ''Save 50% today''))"
    unfolding v by (simp add: char_defs sublist_Cons_right)
  show ?thesis
    using v h1 h2 h3 clean_text_idempotent_on_normal [OF h1 h2 h3] by blast
qed

text \<open>
  C5 as stated fails at \<open>"a # b"\<close>: the first cleaning deletes \<open>#\<close> after the white space
  was collapsed and leaves two spaces, which the second cleaning collapses.
\<close>

theorem clean_text_not_idempotent:
  "clean_text ascii_db (clean_text ascii_db (str ''a # b'')) \<noteq> clean_text ascii_db (str ''a # b'')"
  by (simp add: eval_defs char_defs)

end
